theory Spec2Isabelle
  imports Complex_Main "HOL-Library.Sublist" "HOL-Library.Multiset" "HOL-Library.AList"
begin

section \<open>Renderer store: the analysis slice\<close>

text \<open>
  The Redux slice \<^verbatim>\<open>analysisSlice\<close>. Each reducer mutates an immer draft; here it is a
  function from the payload and the state to the next state. JavaScript numbers that
  index a list are integers (\<open>int\<close>), the others are \<open>real\<close>.
\<close>

record ImageFile =
  id_image :: string
  name_image :: string
  path_image :: string
  size_image :: int
  type_image :: string
  dataUrl :: "string option"
  preview :: "string option"

datatype ModelType = brain | chest

datatype Nivel = ALTO | MEDIO | BAJO

record MedicalInfo =
  titulo :: string
  descripcion :: string
  recomendaciones :: string
  nivel :: Nivel
  urgencia :: string

record AnalysisResult =
  id_result :: string
  fileName :: string
  modelType :: ModelType
  prediction :: string
  confidence :: real
  allPredictions :: "(string \<times> real) list"
  medicalInfo :: MedicalInfo
  timestamp_result :: string
  success :: bool
  error :: "string option"

datatype AnalysisType = auto_type | brain_type | chest_type

record AnalysisState =
  images :: "ImageFile list"
  currentImageIndex :: int
  results :: "AnalysisResult list"
  isAnalyzing :: bool
  analysisProgress :: real
  currentAnalysisType :: AnalysisType
  batchMode :: bool
  selectedResults :: "string list"

definition initialState :: AnalysisState where
  "initialState =
     \<lparr>images = [], currentImageIndex = 0, results = [], isAnalyzing = False,
      analysisProgress = 0, currentAnalysisType = auto_type, batchMode = False,
      selectedResults = []\<rparr>"

definition removeImage :: "string \<Rightarrow> AnalysisState \<Rightarrow> AnalysisState" where
  "removeImage payload state =
     (let state1 = state\<lparr>images := filter (\<lambda>img. id_image img \<noteq> payload) (images state)\<rparr>
      in if currentImageIndex state1 \<ge> int (length (images state1)) \<and> currentImageIndex state1 > 0
         then state1\<lparr>currentImageIndex := currentImageIndex state1 - 1\<rparr>
         else state1)"

definition addResult :: "AnalysisResult \<Rightarrow> AnalysisState \<Rightarrow> AnalysisState" where
  "addResult payload state = state\<lparr>results := results state @ [payload]\<rparr>"

definition setIsAnalyzing :: "bool \<Rightarrow> AnalysisState \<Rightarrow> AnalysisState" where
  "setIsAnalyzing payload state =
     (let state1 = state\<lparr>isAnalyzing := payload\<rparr>
      in if \<not> payload then state1\<lparr>analysisProgress := 0\<rparr> else state1)"

text \<open>
  A position in the image list is valid when it points at an image, or is 0 on the empty
  list (the initial state).
\<close>

definition valid_index :: "AnalysisState \<Rightarrow> bool" where
  "valid_index state \<longleftrightarrow>
     (0 \<le> currentImageIndex state \<and> currentImageIndex state < int (length (images state)))
     \<or> (currentImageIndex state = 0 \<and> images state = [])"

section \<open>Renderer store: the system slice\<close>

datatype NotificationType = info | success_type | warning | error_type

record Notification =
  id_notification :: string
  type_notification :: NotificationType
  message :: string
  timestamp_notification :: string

record NotificationPayload =
  type_payload :: NotificationType
  message_payload :: string

record BackendStatus =
  isRunning :: bool
  modelsLoaded :: bool
  port :: "int option"

record AppInfo =
  name_app :: string
  version_app :: string
  platform :: string
  arch :: string

record SystemState =
  backendStatus :: BackendStatus
  appInfo :: "AppInfo option"
  notifications :: "Notification list"
  isFullscreen :: bool
  isDarkMode :: bool

definition initialState_system :: SystemState where
  "initialState_system =
     \<lparr>backendStatus = \<lparr>isRunning = False, modelsLoaded = False, port = None\<rparr>,
      appInfo = None, notifications = [], isFullscreen = False, isDarkMode = False\<rparr>"

definition setBackendStatus :: "BackendStatus \<Rightarrow> SystemState \<Rightarrow> SystemState" where
  "setBackendStatus payload state = state\<lparr>backendStatus := payload\<rparr>"

text \<open>\<^verbatim>\<open>Array.prototype.slice(-n)\<close> for \<open>n > 0\<close>: the last \<open>n\<close> elements, all of them when
  the array is shorter.\<close>

definition slice_last :: "nat \<Rightarrow> 'a list \<Rightarrow> 'a list" where
  "slice_last n xs = drop (length xs - n) xs"

text \<open>\<^verbatim>\<open>Number.prototype.toString()\<close> on a non-negative integer: its decimal digits.\<close>

definition digit_char :: "nat \<Rightarrow> char" where
  "digit_char d = char_of (48 + d)"

fun toString_nat :: "nat \<Rightarrow> string" where
  "toString_nat n =
     (if n < 10 then [digit_char n] else toString_nat (n div 10) @ [digit_char (n mod 10)])"

declare toString_nat.simps [simp del]

text \<open>
  \<^verbatim>\<open>addNotification\<close> reads the clock twice: \<^verbatim>\<open>Date.now()\<close> (milliseconds, the argument
  \<open>now\<close>) and \<^verbatim>\<open>new Date().toISOString()\<close> (the argument \<open>isoString\<close>).
\<close>

definition addNotification ::
  "nat \<Rightarrow> string \<Rightarrow> NotificationPayload \<Rightarrow> SystemState \<Rightarrow> SystemState" where
  "addNotification now isoString payload state =
     (let state1 = state\<lparr>notifications := notifications state @
            [\<lparr>id_notification = toString_nat now, type_notification = type_payload payload,
              message = message_payload payload, timestamp_notification = isoString\<rparr>]\<rparr>
      in if length (notifications state1) > 10
         then state1\<lparr>notifications := slice_last 10 (notifications state1)\<rparr>
         else state1)"

text \<open>
  \<^verbatim>\<open>initializeApp\<close> of the renderer (App.tsx): one call of \<^verbatim>\<open>checkBackendStatus\<close> when
  the application component mounts. The call itself lives in the services module; its
  answer is the argument here, \<open>None\<close> when anything in the \<^verbatim>\<open>try\<close> block threw.
\<close>

record Models =
  brain_model :: bool
  chest_model :: bool

record HealthResponse =
  status :: string
  models :: "Models option"

definition initializeApp :: "HealthResponse option \<Rightarrow> SystemState \<Rightarrow> SystemState" where
  "initializeApp response state =
     (case response of
        Some backendStatus' \<Rightarrow>
          setBackendStatus
            \<lparr>isRunning = (status backendStatus' = ''healthy''),
             modelsLoaded = (case models backendStatus' of
                               None \<Rightarrow> False
                             | Some m \<Rightarrow> brain_model m \<or> chest_model m),
             port = None\<rparr> state
      | None \<Rightarrow>
          setBackendStatus \<lparr>isRunning = False, modelsLoaded = False, port = None\<rparr> state)"

section \<open>Main process: the backend child process and the application events\<close>

text \<open>
  The Electron main process keeps three module variables, \<^verbatim>\<open>mainWindow\<close>,
  \<^verbatim>\<open>backendProcess\<close> and \<^verbatim>\<open>isQuitting\<close>, and reacts to events of the application and
  of the child process. The model is a state record and one handler per event; an event
  nobody listens to leaves the program's variables as they are.

  Of the child process handle the program reads \<^verbatim>\<open>killed\<close> and calls \<^verbatim>\<open>kill()\<close>.
  Node's \<^verbatim>\<open>kill()\<close> delivers SIGTERM and sets \<^verbatim>\<open>killed\<close> when there is a process
  behind the handle, and does nothing when there is none, because it has ended or was
  never started (\<open>exited\<close>); \<open>signals\<close> counts the deliveries.
\<close>

record ChildProcess =
  killed :: bool
  exited :: bool
  signals :: nat

definition kill :: "ChildProcess \<Rightarrow> ChildProcess" where
  "kill p = (if exited p then p else p\<lparr>killed := True, signals := Suc (signals p)\<rparr>)"

text \<open>The promise that \<^verbatim>\<open>startBackend\<close> returns; it settles once.\<close>

datatype StartResult = Pending | Resolved bool | Rejected

datatype LogLine =
    Log_Backend string
  | Error_Backend string
  | Error_FailedToStartBackend
  | Warn_TookTooLong
  | Log_BackendStarted bool
  | Error_BackendFailedToStart

record MainState =
  mainWindow :: bool
  backendProcess :: "ChildProcess option"
  isQuitting :: bool
  startup :: StartResult
  spawnCount :: nat
  timers :: "nat list"
  shortcuts :: "string list"
  menuSet :: bool
  ipcHandlers :: bool
  console :: "LogLine list"

text \<open>
  \<open>mainWindow\<close> says whether the variable holds a window; \<open>spawnCount\<close> counts the calls
  of \<^verbatim>\<open>spawn\<close>, \<open>timers\<close> holds the delays of the pending \<^verbatim>\<open>setTimeout\<close> calls.
\<close>

definition initial_main :: MainState where
  "initial_main =
     \<lparr>mainWindow = False, backendProcess = None, isQuitting = False, startup = Pending,
      spawnCount = 0, timers = [], shortcuts = [], menuSet = False, ipcHandlers = False,
      console = []\<rparr>"

definition backendPort :: nat where
  "backendPort = 5000"

text \<open>\<^verbatim>\<open>String.prototype.includes\<close>: the needle occurs somewhere in the string.\<close>

fun includes_str :: "string \<Rightarrow> string \<Rightarrow> bool" where
  "includes_str [] needle = (needle = [])"
| "includes_str (c # cs) needle = (prefix needle (c # cs) \<or> includes_str cs needle)"

definition createWindow :: "MainState \<Rightarrow> MainState" where
  "createWindow s = s\<lparr>mainWindow := True, shortcuts := shortcuts s @ [''F11'', ''Escape'']\<rparr>"

definition createMenu :: "MainState \<Rightarrow> MainState" where
  "createMenu s = s\<lparr>menuSet := True\<rparr>"

definition setupIpcHandlers :: "MainState \<Rightarrow> MainState" where
  "setupIpcHandlers s = s\<lparr>ipcHandlers := True\<rparr>"

text \<open>
  The body of \<^verbatim>\<open>startBackend\<close> up to the return of the promise: spawn the interpreter,
  register the listeners, arm the 10 s timer.
\<close>

definition startBackend :: "MainState \<Rightarrow> MainState" where
  "startBackend s =
     s\<lparr>backendProcess := Some \<lparr>killed = False, exited = False, signals = 0\<rparr>,
       spawnCount := Suc (spawnCount s),
       startup := Pending,
       timers := timers s @ [10000]\<rparr>"

text \<open>
  What the \<^verbatim>\<open>app.whenReady\<close> handler does once the awaited promise has settled: the
  \<^verbatim>\<open>try\<close>/\<^verbatim>\<open>catch\<close> logs either outcome, then the window, the menu and the IPC handlers
  are set up.
\<close>

definition afterStartBackend :: "StartResult \<Rightarrow> MainState \<Rightarrow> MainState" where
  "afterStartBackend r s =
     setupIpcHandlers (createMenu (createWindow
       (s\<lparr>console := console s @
            [(case r of Resolved backendStarted \<Rightarrow> Log_BackendStarted backendStarted
                      | _ \<Rightarrow> Error_BackendFailedToStart)]\<rparr>)))"

text \<open>\<^verbatim>\<open>resolve\<close> and \<^verbatim>\<open>reject\<close>: the first call settles the promise and lets the awaiting
  handler go on; a later call does nothing.\<close>

definition settle :: "StartResult \<Rightarrow> MainState \<Rightarrow> MainState" where
  "settle r s = (if startup s = Pending then afterStartBackend r (s\<lparr>startup := r\<rparr>) else s)"

text \<open>The \<^verbatim>\<open>before-quit\<close> handler.\<close>

definition before_quit :: "MainState \<Rightarrow> MainState" where
  "before_quit s =
     (let s1 = s\<lparr>isQuitting := True\<rparr>;
          s2 = (case backendProcess s1 of
                  Some p \<Rightarrow> if \<not> killed p then s1\<lparr>backendProcess := Some (kill p)\<rparr> else s1
                | None \<Rightarrow> s1)
      in s2\<lparr>shortcuts := []\<rparr>)"

text \<open>The answer of the \<^verbatim>\<open>backend:status\<close> IPC handler: truthiness of \<^verbatim>\<open>running\<close>, and
  the port.\<close>

definition backend_status :: "MainState \<Rightarrow> bool \<times> nat" where
  "backend_status s =
     ((case backendProcess s of None \<Rightarrow> False | Some p \<Rightarrow> \<not> killed p), backendPort)"

datatype Event =
    AppReady
  | StdoutData string
  | StderrData string
  | ProcessError
  | ProcessExit
  | StartupTimeout
  | BeforeQuit

text \<open>
  The listeners. Those of the child process exist once it is spawned: \<^verbatim>\<open>data\<close> on its
  stdout and stderr, and \<^verbatim>\<open>error\<close>, which the handle emits when the process could not
  be spawned: then no process is behind the handle. No listener is registered for its
  \<^verbatim>\<open>exit\<close>: when the process ends, only the handle knows.
\<close>

fun handle :: "Event \<Rightarrow> MainState \<Rightarrow> MainState" where
  "handle AppReady s = startBackend s"
| "handle (StdoutData d) s =
     (case backendProcess s of
        None \<Rightarrow> s
      | Some p \<Rightarrow>
          (let s1 = s\<lparr>console := console s @ [Log_Backend d]\<rparr>
           in if includes_str d ''Running on'' then settle (Resolved True) s1 else s1))"
| "handle (StderrData d) s =
     (case backendProcess s of
        None \<Rightarrow> s
      | Some p \<Rightarrow> s\<lparr>console := console s @ [Error_Backend d]\<rparr>)"
| "handle ProcessError s =
     (case backendProcess s of
        None \<Rightarrow> s
      | Some p \<Rightarrow>
          settle Rejected
            (s\<lparr>backendProcess := Some (p\<lparr>exited := True\<rparr>),
               console := console s @ [Error_FailedToStartBackend]\<rparr>))"
| "handle ProcessExit s =
     s\<lparr>backendProcess := map_option (\<lambda>p. p\<lparr>exited := True\<rparr>) (backendProcess s)\<rparr>"
| "handle StartupTimeout s =
     (if 10000 \<in> set (timers s)
      then settle (Resolved False)
             (s\<lparr>timers := remove1 10000 (timers s),
                console := console s @ [Warn_TookTooLong]\<rparr>)
      else s)"
| "handle BeforeQuit s = before_quit s"

fun run :: "Event list \<Rightarrow> MainState \<Rightarrow> MainState" where
  "run [] s = s"
| "run (e # es) s = run es (handle e s)"

text \<open>
  An event of the startup phase that does not make the backend ready: output without the
  marker text, anything on stderr, the end of the child process, a spawn error.
\<close>

definition not_ready_event :: "Event \<Rightarrow> bool" where
  "not_ready_event e =
     (case e of
        StdoutData d \<Rightarrow> \<not> includes_str d ''Running on''
      | StderrData d \<Rightarrow> True
      | ProcessExit \<Rightarrow> True
      | ProcessError \<Rightarrow> True
      | _ \<Rightarrow> False)"

text \<open>
  The state during the startup phase, before the timer fires: the timer is armed, the
  handle has not been killed, and the wait is pending, or rejected when a spawn error has
  occurred (\<open>failed\<close>), in which case the handler has already gone on.
\<close>

definition starting :: "bool \<Rightarrow> MainState \<Rightarrow> bool" where
  "starting failed s \<longleftrightarrow>
     timers s = [10000]
     \<and> (case backendProcess s of None \<Rightarrow> False | Some p \<Rightarrow> \<not> killed p)
     \<and> (if failed
         then startup s = Rejected \<and> mainWindow s \<and> menuSet s \<and> ipcHandlers s
              \<and> Error_BackendFailedToStart \<in> set (console s)
         else startup s = Pending)"

section \<open>The orchestration core as the specification describes it\<close>

text \<open>
  The dispatcher and the result aggregator of the specification (sections 3, 4.3 and 4.4)
  are not in the source files above, which hold the store slices, the main process and
  the application component. They are modelled from the specification's text. Both run
  on one control thread, so each is a state and a transition per completion event; the
  order in which calls complete is left to the list of events.
\<close>

subsection \<open>Data model\<close>

text \<open>Modelled from the spec: the states of ServiceStatus (section 3); the supervisor that
  sets them is missing.\<close>

datatype ServiceState = Starting | Ready | Degraded | Crashed | Stopped

text \<open>Modelled from the spec: the modality of an AnalysisRequest (section 3).\<close>

datatype Modality = Brain | Chest | Auto

text \<open>Modelled from the spec: AnalysisRequest (section 3); the facade that builds requests
  is missing.\<close>

record AnalysisRequest =
  id_request :: string
  imageRef :: string
  modality :: Modality

text \<open>Modelled from the spec: the kinds of failure of an inference call that section 4.3
  lists (network error, malformed response, service-side error, timeout).\<close>

datatype ErrorKind = NetworkError | MalformedResponse | InferenceError | TimeoutError

text \<open>Modelled from the spec: AnalysisOutcome (section 3).\<close>

record AnalysisOutcome =
  requestId :: string
  success_outcome :: bool
  prediction_outcome :: "string option"
  confidenceDistribution :: "(string \<times> real) list option"
  errorKind :: "ErrorKind option"

text \<open>Modelled from the spec: how one inference call settles (section 4.3); the call
  itself is in the missing services module.\<close>

datatype InferenceReply = Predicted string "(string \<times> real) list" | Failed ErrorKind

text \<open>Modelled from the spec: the error of \<^verbatim>\<open>submit\<close> when the service is neither ready nor
  degraded (section 4.3).\<close>

datatype SubmitError = ServiceUnavailable

text \<open>Modelled from the spec: the outcome that the missing dispatcher produces for a
  request from the way its call settled (section 4.3).\<close>

definition outcome_of :: "AnalysisRequest \<Rightarrow> InferenceReply \<Rightarrow> AnalysisOutcome" where
  "outcome_of r reply =
     (case reply of
        Predicted p distribution \<Rightarrow>
          \<lparr>requestId = id_request r, success_outcome = True, prediction_outcome = Some p,
           confidenceDistribution = Some distribution, errorKind = None\<rparr>
      | Failed k \<Rightarrow>
          \<lparr>requestId = id_request r, success_outcome = False, prediction_outcome = None,
           confidenceDistribution = None, errorKind = Some k\<rparr>)"

subsection \<open>Analysis dispatcher\<close>

text \<open>Modelled from the spec: the state of the missing Analysis Dispatcher (section 4.3):
  the work queue, the calls in flight, the progress events emitted so far as
  (completedCount, totalCount, latestOutcome), and the cancellation token.\<close>

record Dispatcher =
  queue :: "AnalysisRequest list"
  inFlight :: "AnalysisRequest list"
  emitted :: "(nat \<times> nat \<times> AnalysisOutcome) list"
  completedCount :: nat
  totalCount :: nat
  concurrencyLimit :: nat
  cancelled :: bool

text \<open>Modelled from the spec: admission from the work queue of the missing dispatcher, in
  submission order, while fewer than \<open>limit\<close> calls are in flight (section 4.3).\<close>

fun admit :: "nat \<Rightarrow> AnalysisRequest list \<Rightarrow> AnalysisRequest list
    \<Rightarrow> AnalysisRequest list \<times> AnalysisRequest list" where
  "admit limit [] flying = ([], flying)"
| "admit limit (r # waiting) flying =
     (if length flying < limit then admit limit waiting (flying @ [r])
      else (r # waiting, flying))"

text \<open>Modelled from the spec: the missing dispatcher starts queued requests; the
  cancellation token is checked before anything is dispatched (sections 4.3 and 5).\<close>

definition pump :: "Dispatcher \<Rightarrow> Dispatcher" where
  "pump d =
     (if cancelled d then d
      else (case admit (concurrencyLimit d) (queue d) (inFlight d) of
              (waiting, flying) \<Rightarrow> d\<lparr>queue := waiting, inFlight := flying\<rparr>))"

text \<open>Modelled from the spec: \<^verbatim>\<open>submit\<close> of the missing dispatcher (section 4.3): it fails
  at once unless the service is ready or degraded, and otherwise admits the batch.\<close>

definition submit ::
  "ServiceState \<Rightarrow> AnalysisRequest list \<Rightarrow> nat \<Rightarrow> SubmitError + Dispatcher" where
  "submit service batch limit =
     (if service \<noteq> Ready \<and> service \<noteq> Degraded then Inl ServiceUnavailable
      else Inr (pump \<lparr>queue = batch, inFlight = [], emitted = [], completedCount = 0,
                      totalCount = length batch, concurrencyLimit = limit,
                      cancelled = False\<rparr>))"

text \<open>Modelled from the spec: the completion of one call in the missing dispatcher
  (section 4.3): success or failure, the request leaves the calls in flight, its outcome
  is emitted with the new count, and the queue is served again. After cancellation the
  call is only released. A completion for a request that is not in flight is ignored, so
  that no request is counted twice.\<close>

definition on_settled :: "AnalysisRequest \<Rightarrow> InferenceReply \<Rightarrow> Dispatcher \<Rightarrow> Dispatcher" where
  "on_settled r reply d =
     (if r \<notin> set (inFlight d) then d
      else if cancelled d then d\<lparr>inFlight := remove1 r (inFlight d)\<rparr>
      else pump (d\<lparr>inFlight := remove1 r (inFlight d),
                   completedCount := Suc (completedCount d),
                   emitted := emitted d @
                     [(Suc (completedCount d), totalCount d, outcome_of r reply)]\<rparr>))"

text \<open>Modelled from the spec: the cancellation token of the missing dispatcher is
  signalled (section 4.3): queued requests are dropped, outcomes are kept.\<close>

definition cancel_dispatch :: "Dispatcher \<Rightarrow> Dispatcher" where
  "cancel_dispatch d = d\<lparr>queue := [], cancelled := True\<rparr>"

text \<open>Modelled from the spec: the events the missing dispatcher reacts to on its control
  thread (section 5).\<close>

datatype DispatchEvent = Settled AnalysisRequest InferenceReply | CancelSignalled

text \<open>Modelled from the spec: one reaction of the missing dispatcher (sections 4.3, 5).\<close>

fun dispatch_step :: "DispatchEvent \<Rightarrow> Dispatcher \<Rightarrow> Dispatcher" where
  "dispatch_step (Settled r reply) d = on_settled r reply d"
| "dispatch_step CancelSignalled d = cancel_dispatch d"

text \<open>Modelled from the spec: the missing dispatcher reacting to events in the order of
  their arrival (section 5).\<close>

fun dispatch_run :: "DispatchEvent list \<Rightarrow> Dispatcher \<Rightarrow> Dispatcher" where
  "dispatch_run [] d = d"
| "dispatch_run (e # es) d = dispatch_run es (dispatch_step e d)"

text \<open>Modelled from the spec: a batch running to its end in the missing dispatcher. The
  inference service answers request \<open>r\<close> with \<open>reply r\<close>; which of the calls in flight
  completes next is free (section 4.3, ordering), here the call at position \<open>k\<close>, counted
  cyclically.\<close>

definition settle_nth ::
  "(AnalysisRequest \<Rightarrow> InferenceReply) \<Rightarrow> nat \<Rightarrow> Dispatcher \<Rightarrow> Dispatcher" where
  "settle_nth reply k d =
     (if inFlight d = [] then d
      else (let r = inFlight d ! (k mod length (inFlight d)) in on_settled r (reply r) d))"

text \<open>Modelled from the spec: a schedule of completions, one choice per step, run on the
  missing dispatcher.\<close>

fun run_schedule ::
  "(AnalysisRequest \<Rightarrow> InferenceReply) \<Rightarrow> nat list \<Rightarrow> Dispatcher \<Rightarrow> Dispatcher" where
  "run_schedule reply [] d = d"
| "run_schedule reply (k # ks) d = run_schedule reply ks (settle_nth reply k d)"

text \<open>The outcomes carried by the progress events, in the order of completion.\<close>

definition outcomes_emitted :: "Dispatcher \<Rightarrow> AnalysisOutcome list" where
  "outcomes_emitted d = map (\<lambda>(done, total, outcome). outcome) (emitted d)"

text \<open>
  Invariants of a dispatcher that has not been cancelled: the queue is only non-empty
  while the calls in flight fill the limit, and the count matches the events. \<open>owed\<close> is
  what the batch still has to deliver together with what it has delivered.
\<close>

definition admitted_ok :: "Dispatcher \<Rightarrow> bool" where
  "admitted_ok d \<longleftrightarrow>
     \<not> cancelled d \<and> 0 < concurrencyLimit d
     \<and> (queue d \<noteq> [] \<longrightarrow> concurrencyLimit d \<le> length (inFlight d))
     \<and> completedCount d = length (emitted d)"

definition owed ::
  "(AnalysisRequest \<Rightarrow> InferenceReply) \<Rightarrow> Dispatcher \<Rightarrow> AnalysisOutcome multiset" where
  "owed reply d =
     mset (outcomes_emitted d)
     + image_mset (\<lambda>r. outcome_of r (reply r)) (mset (queue d) + mset (inFlight d))"

subsection \<open>Result aggregator\<close>

text \<open>Modelled from the spec: the status of a BatchRun (section 3).\<close>

datatype BatchStatus = Running | Completed | PartiallyFailed | Aborted

text \<open>Modelled from the spec: BatchRun (section 3), owned by the missing Result Aggregator;
  the outcomes are a table from request id to outcome.\<close>

record BatchRun =
  batchId :: string
  requests :: "AnalysisRequest list"
  outcomes :: "(string \<times> AnalysisOutcome) list"
  status_batch :: BatchStatus

text \<open>Modelled from the spec: batch creation in the missing aggregator (section 4.4):
  running, no outcomes.\<close>

definition new_batch :: "string \<Rightarrow> AnalysisRequest list \<Rightarrow> BatchRun" where
  "new_batch bid reqs =
     \<lparr>batchId = bid, requests = reqs, outcomes = [], status_batch = Running\<rparr>"

text \<open>Modelled from the spec: a request of the batch has a successful outcome (section 3);
  a request without an outcome has none.\<close>

definition has_success :: "BatchRun \<Rightarrow> AnalysisRequest \<Rightarrow> bool" where
  "has_success b r =
     (case map_of (outcomes b) (id_request r) of
        Some outcome \<Rightarrow> success_outcome outcome
      | None \<Rightarrow> False)"

text \<open>Modelled from the spec: "every request has a successful outcome" (section 3).\<close>

definition every_success :: "BatchRun \<Rightarrow> bool" where
  "every_success b = list_all (has_success b) (requests b)"

text \<open>Modelled from the spec: "at least one success" (section 3).\<close>

definition some_success :: "BatchRun \<Rightarrow> bool" where
  "some_success b = list_ex (has_success b) (requests b)"

text \<open>Modelled from the spec: "at least one failure/missing" (section 3).\<close>

definition some_failure_or_missing :: "BatchRun \<Rightarrow> bool" where
  "some_failure_or_missing b = list_ex (\<lambda>r. \<not> has_success b r) (requests b)"

text \<open>Modelled from the spec: the final status that the missing aggregator computes "per
  the invariant rule" of section 3 once all outcomes are there. The rule names a status
  when every request succeeded and when successes and failures are mixed; for a batch
  without a single success it names none, and that status is the argument \<open>unnamed\<close>.\<close>

definition final_status :: "BatchStatus \<Rightarrow> BatchRun \<Rightarrow> BatchStatus" where
  "final_status unnamed b =
     (if every_success b then Completed
      else if some_success b \<and> some_failure_or_missing b then PartiallyFailed
      else unnamed)"

text \<open>Modelled from the spec: an outcome event in the missing aggregator (section 4.4):
  insert the outcome; when there are as many outcomes as requests, leave \<open>Running\<close> with
  the final status. A terminal batch takes no further outcome (section 8).\<close>

definition on_outcome :: "BatchStatus \<Rightarrow> AnalysisOutcome \<Rightarrow> BatchRun \<Rightarrow> BatchRun" where
  "on_outcome unnamed outcome b =
     (if status_batch b \<noteq> Running then b
      else (let b1 = b\<lparr>outcomes := AList.update (requestId outcome) outcome (outcomes b)\<rparr>
            in if length (outcomes b1) = length (requests b1)
               then b1\<lparr>status_batch := final_status unnamed b1\<rparr>
               else b1))"

text \<open>Modelled from the spec: the cancellation acknowledgment in the missing aggregator
  (section 4.4): a running batch becomes aborted and keeps its outcomes; a terminal one
  is left alone (section 4.5, \<^verbatim>\<open>cancel\<close>).\<close>

definition on_cancel :: "BatchRun \<Rightarrow> BatchRun" where
  "on_cancel b = (if status_batch b = Running then b\<lparr>status_batch := Aborted\<rparr> else b)"

text \<open>Modelled from the spec: the events the missing aggregator consumes (section 4.4).\<close>

datatype AggregatorEvent = OutcomeArrived AnalysisOutcome | CancelAcknowledged

text \<open>Modelled from the spec: one transition of the missing aggregator (section 4.4).\<close>

fun aggregate_step :: "BatchStatus \<Rightarrow> AggregatorEvent \<Rightarrow> BatchRun \<Rightarrow> BatchRun" where
  "aggregate_step unnamed (OutcomeArrived outcome) b = on_outcome unnamed outcome b"
| "aggregate_step unnamed CancelAcknowledged b = on_cancel b"

text \<open>Modelled from the spec: the missing aggregator consuming events in order (section
  4.4).\<close>

fun aggregate :: "BatchStatus \<Rightarrow> AggregatorEvent list \<Rightarrow> BatchRun \<Rightarrow> BatchRun" where
  "aggregate unnamed [] b = b"
| "aggregate unnamed (e # es) b = aggregate unnamed es (aggregate_step unnamed e b)"

text \<open>Modelled from the spec: "the batch was cancelled before all outcomes arrived"
  (section 3): some cancellation was acknowledged at a moment when the batch had fewer
  outcomes than requests.\<close>

fun cancelled_early :: "BatchStatus \<Rightarrow> AggregatorEvent list \<Rightarrow> BatchRun \<Rightarrow> bool" where
  "cancelled_early unnamed [] b = False"
| "cancelled_early unnamed (e # es) b =
     ((e = CancelAcknowledged \<and> length (outcomes b) < length (requests b))
      \<or> cancelled_early unnamed es (aggregate_step unnamed e b))"

text \<open>Modelled from the spec: the rule for the status of a terminated batch, in the words
  of section 3.\<close>

definition status_rule :: "BatchRun \<Rightarrow> bool \<Rightarrow> bool" where
  "status_rule b cancelledEarly \<longleftrightarrow>
     (status_batch b = Completed) = every_success b
     \<and> (status_batch b = PartiallyFailed) = (some_success b \<and> some_failure_or_missing b)
     \<and> (status_batch b = Aborted) = cancelledEarly"

text \<open>The same rule with the partially failed case kept to batches that were not
  cancelled.\<close>

definition status_rule_amended :: "BatchRun \<Rightarrow> bool \<Rightarrow> bool" where
  "status_rule_amended b cancelledEarly \<longleftrightarrow>
     (status_batch b = Completed) = every_success b
     \<and> (status_batch b = PartiallyFailed)
         = (some_success b \<and> some_failure_or_missing b \<and> \<not> cancelledEarly)
     \<and> (status_batch b = Aborted) = cancelledEarly"

text \<open>An outcome event belongs to the batch when it is for one of its requests (section
  3: the outcomes never hold an entry for a request that is not in the batch).\<close>

definition for_request :: "AnalysisRequest list \<Rightarrow> AggregatorEvent \<Rightarrow> bool" where
  "for_request reqs e =
     (case e of
        OutcomeArrived outcome \<Rightarrow> requestId outcome \<in> set (map id_request reqs)
      | CancelAcknowledged \<Rightarrow> True)"

text \<open>
  Invariants of the aggregator along a run, \<open>c\<close> saying whether the batch has been
  cancelled early so far, and of its table of outcomes.
\<close>

definition tracked :: "BatchStatus \<Rightarrow> BatchRun \<Rightarrow> bool \<Rightarrow> bool" where
  "tracked unnamed b c \<longleftrightarrow>
     (if c then status_batch b = Aborted \<and> length (outcomes b) < length (requests b)
      else (status_batch b = Running \<and> length (outcomes b) < length (requests b))
           \<or> (length (outcomes b) = length (requests b)
               \<and> status_batch b = final_status unnamed b))"

definition keyed :: "BatchRun \<Rightarrow> bool" where
  "keyed b \<longleftrightarrow>
     distinct (map fst (outcomes b))
     \<and> fst ` set (outcomes b) \<subseteq> set (map id_request (requests b))"

section \<open>Concrete inputs\<close>

text \<open>The line Flask prints once it listens, and a state with the backend just spawned.\<close>

definition flask_banner :: string where
  "flask_banner = '' * Running on http://127.0.0.1:5000''"

definition spawned_main :: MainState where
  "spawned_main = handle AppReady initial_main"

text \<open>An image file as the loader builds it, for the concrete states below.\<close>

definition example_image :: "string \<Rightarrow> string \<Rightarrow> ImageFile" where
  "example_image i n =
     \<lparr>id_image = i, name_image = n, path_image = ''/tmp/'' @ n, size_image = 1,
      type_image = ''image/png'', dataUrl = None, preview = None\<rparr>"

text \<open>Three requests, an inference service that fails the second, and the dispatcher
  right after the three are submitted with limit 2.\<close>

definition req1 :: AnalysisRequest where
  "req1 = \<lparr>id_request = ''req-1'', imageRef = ''scan-1.png'', modality = Brain\<rparr>"

definition req2 :: AnalysisRequest where
  "req2 = \<lparr>id_request = ''req-2'', imageRef = ''scan-2.png'', modality = Chest\<rparr>"

definition req3 :: AnalysisRequest where
  "req3 = \<lparr>id_request = ''req-3'', imageRef = ''scan-3.png'', modality = Auto\<rparr>"

definition example_reply :: "AnalysisRequest \<Rightarrow> InferenceReply" where
  "example_reply r =
     (if id_request r = ''req-2'' then Failed InferenceError
      else Predicted ''glioma'' [(''glioma'', 1)])"

definition example_dispatcher :: Dispatcher where
  "example_dispatcher =
     \<lparr>queue = [req3], inFlight = [req1, req2], emitted = [], completedCount = 0,
      totalCount = 3, concurrencyLimit = 2, cancelled = False\<rparr>"

section \<open>Properties of the analysis slice\<close>

text \<open>
  C10. \<^verbatim>\<open>setIsAnalyzing(false)\<close> sets \<open>isAnalyzing\<close> to false and resets
  \<open>analysisProgress\<close> to 0, and \<^verbatim>\<open>setIsAnalyzing(true)\<close> sets \<open>isAnalyzing\<close> to true and
  keeps \<open>analysisProgress\<close>; in both cases every other field of the state is unchanged.
\<close>

theorem setIsAnalyzing_frame:
  "setIsAnalyzing False state = state\<lparr>isAnalyzing := False, analysisProgress := 0\<rparr>
   \<and> setIsAnalyzing True state = state\<lparr>isAnalyzing := True\<rparr>"
  by (simp add: setIsAnalyzing_def)

text \<open>
  C9, as stated: from a state whose \<open>currentImageIndex\<close> is a valid position,
  \<^verbatim>\<open>removeImage\<close> with any id yields a valid position. The filter removes every image
  that carries the id while the index is decremented at most once, so the statement
  fails when two images share the removed id: with images \<open>b, a, a\<close> and index 2,
  removing \<open>a\<close> leaves one image and index 1.
\<close>

theorem removeImage_duplicate_id_counterexample:
  "valid_index (initialState\<lparr>images := [example_image ''b'' ''b.png'',
        example_image ''a'' ''a1.png'', example_image ''a'' ''a2.png''],
      currentImageIndex := 2\<rparr>)
   \<and> \<not> valid_index (removeImage ''a'' (initialState\<lparr>images := [example_image ''b'' ''b.png'',
        example_image ''a'' ''a1.png'', example_image ''a'' ''a2.png''],
      currentImageIndex := 2\<rparr>))"
  by (simp add: valid_index_def removeImage_def initialState_def example_image_def Let_def)

lemma filter_removed_length:
  assumes "length (filter (\<lambda>img. id_image img = payload) xs) \<le> 1"
  shows "length xs \<le> Suc (length (filter (\<lambda>img. id_image img \<noteq> payload) xs))"
  using sum_length_filter_compl [of "\<lambda>img. id_image img = payload" xs] assms by simp

text \<open>
  C9, amended: from a state whose \<open>currentImageIndex\<close> is a valid position,
  \<^verbatim>\<open>removeImage\<close> with an id that at most one image carries yields a valid position
  again; the index is decremented exactly when it is positive and at or past the end of
  the shrunken list, and it is never negative.
\<close>

theorem removeImage_valid_index:
  assumes "valid_index state"
    and "length (filter (\<lambda>img. id_image img = payload) (images state)) \<le> 1"
  shows "valid_index (removeImage payload state)
     \<and> 0 \<le> currentImageIndex (removeImage payload state)
     \<and> currentImageIndex (removeImage payload state)
        = (if int (length (images (removeImage payload state))) \<le> currentImageIndex state
              \<and> 0 < currentImageIndex state
           then currentImageIndex state - 1 else currentImageIndex state)"
  using assms(1) filter_removed_length [OF assms(2)]
  by (auto simp add: valid_index_def removeImage_def Let_def)

theorem removeImage_valid_index_witness:
  "valid_index (initialState\<lparr>images := [example_image ''b'' ''b.png'',
        example_image ''a'' ''a1.png''], currentImageIndex := 1\<rparr>)
   \<and> length (filter (\<lambda>img. id_image img = ''a'')
         [example_image ''b'' ''b.png'', example_image ''a'' ''a1.png'']) \<le> 1
   \<and> valid_index (removeImage ''a'' (initialState\<lparr>images := [example_image ''b'' ''b.png'',
        example_image ''a'' ''a1.png''], currentImageIndex := 1\<rparr>))
   \<and> currentImageIndex (removeImage ''a'' (initialState\<lparr>images :=
        [example_image ''b'' ''b.png'', example_image ''a'' ''a1.png''],
        currentImageIndex := 1\<rparr>)) = 0"
proof -
  let ?s = "initialState\<lparr>images := [example_image ''b'' ''b.png'',
        example_image ''a'' ''a1.png''], currentImageIndex := 1\<rparr>"
  have h1: "valid_index ?s"
    by (simp add: valid_index_def initialState_def)
  have h2: "length (filter (\<lambda>img. id_image img = ''a'') (images ?s)) \<le> 1"
    by (simp add: example_image_def)
  have "images ?s = [example_image ''b'' ''b.png'', example_image ''a'' ''a1.png'']"
    by simp
  moreover have "length (images (removeImage ''a'' ?s)) = 1"
    by (simp add: removeImage_def example_image_def Let_def)
  ultimately show ?thesis
    using h1 h2 removeImage_valid_index [OF h1 h2] by simp
qed

section \<open>Properties of the system slice\<close>

text \<open>
  C8. After \<^verbatim>\<open>addNotification\<close>, from any state, the list holds at most 10
  notifications: the new one appended to the old ones, cut to the last 10 of them (the
  10 most recently added) when there are more.
\<close>

theorem addNotification_bounded:
  "length (notifications (addNotification now isoString payload state)) \<le> 10
   \<and> length (notifications (addNotification now isoString payload state))
       = min 10 (Suc (length (notifications state)))
   \<and> notifications (addNotification now isoString payload state)
       = drop (Suc (length (notifications state)) - 10)
           (notifications state @
             [\<lparr>id_notification = toString_nat now, type_notification = type_payload payload,
               message = message_payload payload, timestamp_notification = isoString\<rparr>])"
  by (simp add: addNotification_def slice_last_def Let_def)

section \<open>Properties of the main process\<close>

lemma includes_str_sublist: "includes_str hay needle \<longleftrightarrow> sublist needle hay"
  by (induction hay) (auto simp: sublist_Cons_right)

lemma settle_fields [simp]:
  "spawnCount (settle r s) = spawnCount s"
  "timers (settle r s) = timers s"
  "backendProcess (settle r s) = backendProcess s"
  "isQuitting (settle r s) = isQuitting s"
  by (simp_all add: settle_def afterStartBackend_def setupIpcHandlers_def createMenu_def
      createWindow_def)

lemma settle_pending:
  "startup s = Pending \<Longrightarrow> r \<noteq> Pending \<Longrightarrow>
   startup (settle r s) = r \<and> mainWindow (settle r s) \<and> menuSet (settle r s)
   \<and> ipcHandlers (settle r s)
   \<and> console (settle r s) = console s @
        [(case r of Resolved b \<Rightarrow> Log_BackendStarted b | _ \<Rightarrow> Error_BackendFailedToStart)]"
  by (simp add: settle_def afterStartBackend_def setupIpcHandlers_def createMenu_def
      createWindow_def)

lemma run_append: "run (es @ fs) s = run fs (run es s)"
  by (induction es arbitrary: s) auto

lemma spawned_main_eq:
  "spawned_main =
     \<lparr>mainWindow = False,
      backendProcess = Some \<lparr>killed = False, exited = False, signals = 0\<rparr>,
      isQuitting = False, startup = Pending, spawnCount = 1, timers = [10000],
      shortcuts = [], menuSet = False, ipcHandlers = False, console = []\<rparr>"
  by (simp add: spawned_main_def startBackend_def initial_main_def)

subsection \<open>Shutdown\<close>

text \<open>
  C5. The \<^verbatim>\<open>before-quit\<close> handler is idempotent and is what every \<^verbatim>\<open>before-quit\<close> event
  runs: on a live child process the first call delivers the termination signal and marks
  the handle killed, and a second call leaves the handle and the whole state as the first
  call left them.
\<close>

theorem before_quit_idempotent:
  "before_quit (before_quit s) = before_quit s
   \<and> handle BeforeQuit s = before_quit s
   \<and> (backendProcess s = Some p \<and> \<not> killed p \<and> \<not> exited p \<longrightarrow>
        backendProcess (before_quit s)
          = Some (p\<lparr>killed := True, signals := Suc (signals p)\<rparr>)
        \<and> backendProcess (before_quit (before_quit s))
          = Some (p\<lparr>killed := True, signals := Suc (signals p)\<rparr>))"
  by (auto simp: before_quit_def kill_def Let_def split: option.splits)

theorem before_quit_idempotent_witness:
  "backendProcess spawned_main = Some \<lparr>killed = False, exited = False, signals = 0\<rparr>
   \<and> backendProcess (before_quit spawned_main)
       = Some \<lparr>killed = True, exited = False, signals = 1\<rparr>
   \<and> backendProcess (before_quit (before_quit spawned_main))
       = Some \<lparr>killed = True, exited = False, signals = 1\<rparr>
   \<and> before_quit (before_quit spawned_main) = before_quit spawned_main"
proof -
  have h: "backendProcess spawned_main = Some \<lparr>killed = False, exited = False, signals = 0\<rparr>"
    by (simp add: spawned_main_eq)
  show ?thesis
    using h before_quit_idempotent
      [of spawned_main "\<lparr>killed = False, exited = False, signals = 0\<rparr>"]
    by simp
qed

subsection \<open>Startup\<close>

lemma step_starting:
  assumes "not_ready_event e" and "starting failed s"
  shows "starting (failed \<or> e = ProcessError) (handle e s)"
proof (cases e)
  case ProcessError
  from assms(2) obtain p where p: "backendProcess s = Some p" "\<not> killed p"
    by (auto simp: starting_def split: option.splits)
  show ?thesis
  proof (cases failed)
    case True
    with assms(2) ProcessError p show ?thesis
      by (simp add: starting_def settle_def)
  next
    case False
    with assms(2) ProcessError p show ?thesis
      by (simp add: starting_def settle_def afterStartBackend_def setupIpcHandlers_def
          createMenu_def createWindow_def)
  qed
next
  case (StdoutData d)
  with assms show ?thesis
    by (auto simp: starting_def not_ready_event_def Let_def split: option.splits)
next
  case (StderrData d)
  with assms show ?thesis
    by (auto simp: starting_def split: option.splits)
next
  case ProcessExit
  with assms show ?thesis
    by (auto simp: starting_def split: option.splits)
qed (use assms in \<open>simp_all add: not_ready_event_def\<close>)

lemma run_starting:
  assumes "\<forall>e \<in> set evs. not_ready_event e" and "starting failed s"
  shows "starting (failed \<or> ProcessError \<in> set evs) (run evs s)"
  using assms
proof (induction evs arbitrary: s failed)
  case Nil
  then show ?case by simp
next
  case (Cons e es)
  from Cons.prems have "not_ready_event e" and rest: "\<forall>e \<in> set es. not_ready_event e"
    by simp_all
  from step_starting [OF this(1) Cons.prems(2)]
  have "starting (failed \<or> e = ProcessError) (handle e s)" .
  from Cons.IH [OF rest this] show ?case
    by (simp add: disj_assoc eq_commute [of ProcessError e])
qed

text \<open>
  C3, as stated: when the service does not become ready within the timeout, the startup
  wait resolves with a non-ready result after the timeout, and the application continues
  in a degraded mode. When the interpreter cannot be spawned, the service does not become
  ready either, but the wait has been rejected before the timer fires and never resolves
  with a result; and after a plain timeout the status query of the main process goes on
  answering that the backend is running: no degraded mode is recorded.
\<close>

theorem startup_timeout_counterexample:
  "not_ready_event ProcessError
   \<and> startup (run [AppReady, ProcessError] initial_main) = Rejected
   \<and> startup (run [AppReady, ProcessError, StartupTimeout] initial_main) \<noteq> Resolved False
   \<and> startup (run [AppReady, StartupTimeout] initial_main) = Resolved False
   \<and> fst (backend_status (run [AppReady, StartupTimeout] initial_main))"
  by (simp add: not_ready_event_def startBackend_def initial_main_def settle_def
      afterStartBackend_def setupIpcHandlers_def createMenu_def createWindow_def
      backend_status_def)

text \<open>
  C3, amended: when, after the start of the backend, nothing that arrives before the 10 s
  timer makes the backend ready (no output with the marker text), the startup wait ends
  not ready: the timer resolves it with \<^verbatim>\<open>false\<close>, unless a spawn error has rejected it
  before. In both cases the handler of \<^verbatim>\<open>app.whenReady\<close> logs the outcome and goes on to
  create the window, the menu and the IPC handlers; nothing is raised to its caller. The
  main process records no degraded mode: its status query still answers running.
\<close>

theorem startup_not_ready_continues:
  assumes "\<forall>e \<in> set evs. not_ready_event e"
  shows "startup (run (AppReady # evs @ [StartupTimeout]) initial_main)
         = (if ProcessError \<in> set evs then Rejected else Resolved False)
     \<and> mainWindow (run (AppReady # evs @ [StartupTimeout]) initial_main)
     \<and> menuSet (run (AppReady # evs @ [StartupTimeout]) initial_main)
     \<and> ipcHandlers (run (AppReady # evs @ [StartupTimeout]) initial_main)
     \<and> (if ProcessError \<in> set evs then Error_BackendFailedToStart
         else Log_BackendStarted False)
         \<in> set (console (run (AppReady # evs @ [StartupTimeout]) initial_main))
     \<and> timers (run (AppReady # evs @ [StartupTimeout]) initial_main) = []
     \<and> fst (backend_status (run (AppReady # evs @ [StartupTimeout]) initial_main))"
proof -
  let ?s1 = "run evs spawned_main"
  let ?f = "ProcessError \<in> set evs"
  have "starting False spawned_main"
    by (simp add: starting_def spawned_main_eq)
  from run_starting [OF assms this] have st: "starting ?f ?s1"
    by simp
  then obtain p where p: "backendProcess ?s1 = Some p" "\<not> killed p"
    by (auto simp: starting_def split: option.splits)
  have t: "timers ?s1 = [10000]"
    using st by (simp add: starting_def)
  let ?s2 = "?s1\<lparr>timers := remove1 10000 (timers ?s1),
                  console := console ?s1 @ [Warn_TookTooLong]\<rparr>"
  let ?s3 = "settle (Resolved False) ?s2"
  have r: "run (AppReady # evs @ [StartupTimeout]) initial_main = ?s3"
    using t by (simp add: run_append spawned_main_def)
  have b: "fst (backend_status ?s3)"
    using p by (simp add: backend_status_def)
  have tm: "timers ?s3 = []"
    using t by simp
  show ?thesis
  proof (cases ?f)
    case True
    with st have "startup ?s2 = Rejected" "mainWindow ?s2" "menuSet ?s2" "ipcHandlers ?s2"
      "Error_BackendFailedToStart \<in> set (console ?s2)"
      by (simp_all add: starting_def)
    then have "startup ?s3 = Rejected" "mainWindow ?s3" "menuSet ?s3" "ipcHandlers ?s3"
      "Error_BackendFailedToStart \<in> set (console ?s3)"
      by (simp_all add: settle_def)
    with True b tm show ?thesis
      unfolding r by simp
  next
    case False
    with st have "startup ?s2 = Pending"
      by (simp add: starting_def)
    from settle_pending [OF this, of "Resolved False"]
    have "startup ?s3 = Resolved False" "mainWindow ?s3" "menuSet ?s3" "ipcHandlers ?s3"
      "Log_BackendStarted False \<in> set (console ?s3)"
      by simp_all
    with False b tm show ?thesis
      unfolding r by simp
  qed
qed

theorem startup_not_ready_continues_witness:
  "not_ready_event (StdoutData '' * Serving Flask app'') \<and> not_ready_event ProcessError
   \<and> not_ready_event ProcessExit
   \<and> startup (run [AppReady, StdoutData '' * Serving Flask app'', ProcessError, ProcessExit,
        StartupTimeout] initial_main) = Rejected
   \<and> mainWindow (run [AppReady, StdoutData '' * Serving Flask app'', ProcessError,
        ProcessExit, StartupTimeout] initial_main)
   \<and> fst (backend_status (run [AppReady, StdoutData '' * Serving Flask app'', ProcessError,
        ProcessExit, StartupTimeout] initial_main))"
proof -
  have h: "\<forall>e \<in> set [StdoutData '' * Serving Flask app'', ProcessError, ProcessExit].
      not_ready_event e"
    by (simp add: not_ready_event_def)
  show ?thesis
    using h startup_not_ready_continues [OF h] by (simp add: not_ready_event_def)
qed

text \<open>
  C2, as stated: readiness is detected by a prober that polls a liveness endpoint
  periodically, not by matching the text the process prints. In the program the startup
  wait becomes ready on the text alone: the same state with two different lines on
  stdout is ready after the one and still waiting after the other, and the only timer
  pending is the one-shot startup timeout.
\<close>

theorem readiness_probe_counterexample:
  "startup (run [AppReady, StdoutData flask_banner] initial_main) = Resolved True
   \<and> startup (run [AppReady, StdoutData '' * Serving Flask app''] initial_main) = Pending
   \<and> timers (run [AppReady, StdoutData flask_banner] initial_main) = [10000]"
  by (simp add: flask_banner_def startBackend_def initial_main_def settle_def
      afterStartBackend_def setupIpcHandlers_def createMenu_def createWindow_def)

lemma handle_timers:
  "timers (handle e s)
   = (case e of
        AppReady \<Rightarrow> timers s @ [10000]
      | StartupTimeout \<Rightarrow> remove1 10000 (timers s)
      | _ \<Rightarrow> timers s)"
  by (cases e)
    (auto simp: Let_def startBackend_def before_quit_def remove1_idem split: option.splits)

lemma handle_ready:
  assumes "startup s = Pending" and "backendProcess s \<noteq> None"
  shows "(startup (handle e s) = Resolved True)
         = (case e of StdoutData d \<Rightarrow> includes_str d ''Running on'' | _ \<Rightarrow> False)"
proof (cases e)
  case (StdoutData d)
  have "startup (s\<lparr>console := console s @ [Log_Backend d]\<rparr>) = Pending"
    using assms(1) by simp
  from settle_pending [OF this, of "Resolved True"] StdoutData assms show ?thesis
    by (auto simp: Let_def split: option.splits)
next
  case ProcessError
  from assms(2) obtain p where p: "backendProcess s = Some p"
    by auto
  have "startup (s\<lparr>backendProcess := Some (p\<lparr>exited := True\<rparr>),
      console := console s @ [Error_FailedToStartBackend]\<rparr>) = Pending"
    using assms(1) by simp
  from settle_pending [OF this, of Rejected] ProcessError p show ?thesis
    by simp
next
  case StartupTimeout
  have "startup (s\<lparr>timers := remove1 10000 (timers s),
      console := console s @ [Warn_TookTooLong]\<rparr>) = Pending"
    using assms(1) by simp
  from settle_pending [OF this, of "Resolved False"] StartupTimeout assms(1) show ?thesis
    by simp
next
  case BeforeQuit
  with assms(1) show ?thesis
    by (simp add: before_quit_def Let_def split: option.splits)
qed (use assms in \<open>auto simp: startBackend_def split: option.splits\<close>)

text \<open>
  C2, amended: readiness of the backend at startup is detected by matching the text of
  its standard output, not by a prober. While the startup wait is pending, an event makes
  it ready exactly when it is a chunk of output that contains \<^verbatim>\<open>Running on\<close>; a spawn
  error ends the wait by rejection, and the 10 s startup timer, when it fires first, ends
  it with \<^verbatim>\<open>false\<close>. No handler of the main process arms a timer other than that startup
  timer, which the start of the backend arms once and whose firing removes it: nothing
  polls periodically. In the renderer, \<^verbatim>\<open>initializeApp\<close> takes the backend as running
  exactly when the answer of its status check has the status \<^verbatim>\<open>healthy\<close>, and as not
  running when the check fails.
\<close>

theorem readiness_by_stdout_match:
  assumes "startup s = Pending" and "backendProcess s \<noteq> None"
  shows "(startup (handle e s) = Resolved True)
         = (case e of StdoutData d \<Rightarrow> sublist ''Running on'' d | _ \<Rightarrow> False)
     \<and> (startup (handle (StdoutData d) s) = Resolved True) = sublist ''Running on'' d
     \<and> (startup (handle (StdoutData d) s) = Pending) = (\<not> sublist ''Running on'' d)
     \<and> startup (handle ProcessError s) = Rejected
     \<and> startup (handle StartupTimeout s)
         = (if 10000 \<in> set (timers s) then Resolved False else Pending)
     \<and> timers (handle e' s')
         = (case e' of
              AppReady \<Rightarrow> timers s' @ [10000]
            | StartupTimeout \<Rightarrow> remove1 10000 (timers s')
            | _ \<Rightarrow> timers s')
     \<and> isRunning (backendStatus (initializeApp (Some h) st)) = (status h = ''healthy'')
     \<and> \<not> isRunning (backendStatus (initializeApp None st))"
proof -
  let ?s1 = "s\<lparr>console := console s @ [Log_Backend d]\<rparr>"
  from assms(2) obtain p where p: "backendProcess s = Some p"
    by auto
  have "startup ?s1 = Pending"
    using assms(1) by simp
  from settle_pending [OF this, of "Resolved True"]
  have "startup (settle (Resolved True) ?s1) = Resolved True"
    by simp
  then have out: "(startup (handle (StdoutData d) s) = Resolved True)
        = includes_str d ''Running on''"
    "(startup (handle (StdoutData d) s) = Pending) = (\<not> includes_str d ''Running on'')"
    using assms by (auto simp: Let_def split: option.splits)
  have "startup (s\<lparr>backendProcess := Some (p\<lparr>exited := True\<rparr>),
      console := console s @ [Error_FailedToStartBackend]\<rparr>) = Pending"
    using assms(1) by simp
  from settle_pending [OF this, of Rejected] p
  have err: "startup (handle ProcessError s) = Rejected"
    by simp
  have "startup (s\<lparr>timers := remove1 10000 (timers s),
      console := console s @ [Warn_TookTooLong]\<rparr>) = Pending"
    using assms(1) by simp
  from settle_pending [OF this, of "Resolved False"] assms(1)
  have tmo: "startup (handle StartupTimeout s)
         = (if 10000 \<in> set (timers s) then Resolved False else Pending)"
    by simp
  have ready: "(startup (handle e s) = Resolved True)
         = (case e of StdoutData d \<Rightarrow> sublist ''Running on'' d | _ \<Rightarrow> False)"
    using handle_ready [OF assms, of e]
    by (simp add: includes_str_sublist split: Event.splits)
  have rend: "isRunning (backendStatus (initializeApp (Some h) st)) = (status h = ''healthy'')"
    "\<not> isRunning (backendStatus (initializeApp None st))"
    by (simp_all add: initializeApp_def setBackendStatus_def)
  from ready out err tmo handle_timers [of e' s'] rend show ?thesis
    by (simp add: includes_str_sublist)
qed

theorem readiness_by_stdout_match_witness:
  "startup spawned_main = Pending \<and> backendProcess spawned_main \<noteq> None
   \<and> sublist ''Running on'' flask_banner
   \<and> startup (handle (StdoutData flask_banner) spawned_main) = Resolved True
   \<and> startup (handle ProcessError spawned_main) = Rejected
   \<and> startup (handle StartupTimeout spawned_main) = Resolved False"
proof -
  have h1: "startup spawned_main = Pending" and h2: "backendProcess spawned_main \<noteq> None"
    and t: "timers spawned_main = [10000]"
    by (simp_all add: spawned_main_eq)
  have "includes_str flask_banner ''Running on''"
    by (simp add: flask_banner_def)
  then have h3: "sublist ''Running on'' flask_banner"
    by (simp add: includes_str_sublist)
  show ?thesis
    using h1 h2 h3 t readiness_by_stdout_match [OF h1 h2, of _ flask_banner]
    by simp
qed

subsection \<open>The end of the child process\<close>

lemma handle_no_spawn:
  "e \<noteq> AppReady \<Longrightarrow>
   spawnCount (handle e s) = spawnCount s \<and> set (timers (handle e s)) \<subseteq> set (timers s)"
  using set_remove1_subset [of 10000 "timers s"]
  by (cases e) (auto simp: Let_def before_quit_def split: option.splits)

lemma run_no_spawn:
  "AppReady \<notin> set evs \<Longrightarrow>
   spawnCount (run evs s) = spawnCount s \<and> set (timers (run evs s)) \<subseteq> set (timers s)"
proof (induction evs arbitrary: s)
  case Nil
  then show ?case by simp
next
  case (Cons e es)
  then have "e \<noteq> AppReady" "AppReady \<notin> set es"
    by auto
  from handle_no_spawn [OF this(1), of s] Cons.IH [OF this(2), of "handle e s"]
  show ?case by auto
qed

text \<open>
  C1, as stated: after a termination of the backend that nobody asked for, the status
  becomes crashed and a restart is scheduled. In the program, once the backend is up and
  the startup timer has fired, the end of the process changes nothing that the program
  reads: quitting was not requested, the status query still answers running, no timer is
  pending and the process has been spawned once.
\<close>

theorem crash_restart_counterexample:
  "\<not> isQuitting (run [AppReady, StdoutData flask_banner, StartupTimeout, ProcessExit] initial_main)
   \<and> fst (backend_status
        (run [AppReady, StdoutData flask_banner, StartupTimeout, ProcessExit] initial_main))
   \<and> timers (run [AppReady, StdoutData flask_banner, StartupTimeout, ProcessExit] initial_main)
       = []
   \<and> spawnCount
        (run [AppReady, StdoutData flask_banner, StartupTimeout, ProcessExit] initial_main) = 1"
  by (simp add: flask_banner_def startBackend_def initial_main_def settle_def
      afterStartBackend_def setupIpcHandlers_def createMenu_def createWindow_def
      backend_status_def)

text \<open>
  C1, amended: a termination of the backend process is not observed by the main process.
  The answer of the status query, the pending timers, the startup result and the number
  of spawns are the same after it as before, and whatever happens afterwards, short of a
  new application start, spawns no process and arms no timer: the backend is started
  once and never restarted.
\<close>

theorem exit_without_restart:
  "backend_status (handle ProcessExit s) = backend_status s
   \<and> spawnCount (handle ProcessExit s) = spawnCount s
   \<and> timers (handle ProcessExit s) = timers s
   \<and> startup (handle ProcessExit s) = startup s
   \<and> (AppReady \<notin> set evs \<longrightarrow>
        spawnCount (run evs s) = spawnCount s
        \<and> set (timers (run evs s)) \<subseteq> set (timers s))"
proof -
  have "backend_status (handle ProcessExit s) = backend_status s"
    by (cases "backendProcess s") (auto simp: backend_status_def)
  then show ?thesis
    using run_no_spawn [of evs s] by simp
qed

theorem exit_without_restart_witness:
  "AppReady \<notin> set [ProcessExit, StdoutData flask_banner, StartupTimeout, ProcessExit]
   \<and> spawnCount (run [ProcessExit, StdoutData flask_banner, StartupTimeout, ProcessExit]
        spawned_main) = 1
   \<and> fst (backend_status (handle ProcessExit spawned_main))"
proof -
  have h: "AppReady \<notin> set [ProcessExit, StdoutData flask_banner, StartupTimeout, ProcessExit]"
    by simp
  have "spawnCount spawned_main = 1" and "fst (backend_status spawned_main)"
    by (simp_all add: spawned_main_eq backend_status_def)
  then show ?thesis
    using h exit_without_restart
      [of spawned_main "[ProcessExit, StdoutData flask_banner, StartupTimeout, ProcessExit]"]
    by simp
qed

section \<open>Properties of the analysis dispatcher\<close>

lemmas example_defs = req1_def req2_def req3_def example_reply_def example_dispatcher_def

lemma admit_eq:
  "admit limit waiting flying =
     (drop (limit - length flying) waiting, flying @ take (limit - length flying) waiting)"
proof (induction waiting arbitrary: flying)
  case Nil
  then show ?case by simp
next
  case (Cons r waiting)
  show ?case
  proof (cases "length flying < limit")
    case True
    then obtain m where m: "limit - length flying = Suc m"
      by (cases "limit - length flying") auto
    then have "limit - length (flying @ [r]) = m"
      by simp
    with Cons.IH [of "flying @ [r]"] True m show ?thesis
      by simp
  next
    case False
    then show ?thesis by simp
  qed
qed

lemma pump_fields [simp]:
  "concurrencyLimit (pump d) = concurrencyLimit d"
  "cancelled (pump d) = cancelled d"
  "emitted (pump d) = emitted d"
  "completedCount (pump d) = completedCount d"
  "totalCount (pump d) = totalCount d"
  by (simp_all add: pump_def split: prod.splits)

lemma pump_bound:
  "length (inFlight d) \<le> concurrencyLimit d \<Longrightarrow>
   length (inFlight (pump d)) \<le> concurrencyLimit d"
  by (auto simp: pump_def admit_eq)

lemma pump_mset:
  "mset (queue (pump d)) + mset (inFlight (pump d)) = mset (queue d) + mset (inFlight d)"
proof -
  have "mset (drop n xs) + mset (take n xs) = mset xs" for n and xs :: "AnalysisRequest list"
    by (metis append_take_drop_id mset_append add.commute)
  then show ?thesis
    by (auto simp: pump_def admit_eq ac_simps)
qed

lemma pump_length:
  "length (queue (pump d)) + length (inFlight (pump d))
   = length (queue d) + length (inFlight d)"
  by (auto simp: pump_def admit_eq)

lemma pump_full:
  "\<not> cancelled d \<Longrightarrow> queue (pump d) \<noteq> [] \<Longrightarrow>
   concurrencyLimit d \<le> length (inFlight (pump d))"
  by (auto simp: pump_def admit_eq)

lemma step_bound:
  assumes "length (inFlight d) \<le> concurrencyLimit d"
  shows "length (inFlight (dispatch_step e d)) \<le> concurrencyLimit d
     \<and> concurrencyLimit (dispatch_step e d) = concurrencyLimit d"
proof (cases e)
  case (Settled r reply)
  have "length (remove1 r (inFlight d)) \<le> concurrencyLimit d"
    using assms by (auto simp: length_remove1)
  then show ?thesis
    using assms Settled
      pump_bound [of "d\<lparr>inFlight := remove1 r (inFlight d),
                   completedCount := Suc (completedCount d),
                   emitted := emitted d @
                     [(Suc (completedCount d), totalCount d, outcome_of r reply)]\<rparr>"]
    by (auto simp: on_settled_def)
next
  case CancelSignalled
  with assms show ?thesis
    by (simp add: cancel_dispatch_def)
qed

lemma run_bound:
  "length (inFlight d) \<le> concurrencyLimit d \<Longrightarrow>
   length (inFlight (dispatch_run evs d)) \<le> concurrencyLimit d"
proof (induction evs arbitrary: d)
  case Nil
  then show ?case by simp
next
  case (Cons e es)
  from step_bound [OF Cons.prems, of e] Cons.IH [of "dispatch_step e d"]
  show ?case by simp
qed

lemma example_submit: "submit Ready [req1, req2, req3] 2 = Inr example_dispatcher"
  by (simp add: submit_def pump_def example_dispatcher_def)

text \<open>
  C4. From a successful submission on, whatever calls complete or cancellations arrive
  and in whatever order, the number of calls in flight is at most the concurrency limit
  given at submission; at submission the first \<open>limit\<close> requests are in flight and the
  others wait in the queue.
\<close>

theorem in_flight_bounded:
  assumes "submit service batch limit = Inr d"
  shows "length (inFlight (dispatch_run evs d)) \<le> limit
     \<and> inFlight d = take limit batch \<and> queue d = drop limit batch"
proof -
  from assms have d: "d = pump \<lparr>queue = batch, inFlight = [], emitted = [],
      completedCount = 0, totalCount = length batch, concurrencyLimit = limit,
      cancelled = False\<rparr>"
    by (auto simp: submit_def split: if_splits)
  then have l: "concurrencyLimit d = limit"
    and "inFlight d = take limit batch" "queue d = drop limit batch"
    by (simp_all add: pump_def admit_eq)
  moreover have "length (inFlight d) \<le> concurrencyLimit d"
    unfolding d by (rule pump_bound [THEN order_trans]) simp_all
  from run_bound [OF this] l have "length (inFlight (dispatch_run evs d)) \<le> limit"
    by simp
  ultimately show ?thesis by simp
qed

theorem in_flight_bounded_witness:
  "submit Ready [req1, req2, req3] 2 = Inr example_dispatcher
   \<and> length (inFlight (dispatch_run
        [Settled req2 (Failed TimeoutError), Settled req1 (example_reply req1)]
        example_dispatcher)) \<le> 2
   \<and> inFlight example_dispatcher = [req1, req2] \<and> queue example_dispatcher = [req3]"
  using example_submit
    in_flight_bounded [OF example_submit,
      of "[Settled req2 (Failed TimeoutError), Settled req1 (example_reply req1)]"]
  by simp

lemma on_settled_live:
  assumes "admitted_ok d" and "r \<in> set (inFlight d)"
  shows "admitted_ok (on_settled r reply d)"
    and "length (queue (on_settled r reply d)) + length (inFlight (on_settled r reply d))
         = length (queue d) + length (inFlight d) - 1"
    and "mset (outcomes_emitted (on_settled r reply d))
         = mset (outcomes_emitted d) + {#outcome_of r reply#}"
    and "mset (queue (on_settled r reply d)) + mset (inFlight (on_settled r reply d)) + {#r#}
         = mset (queue d) + mset (inFlight d)"
proof -
  let ?d1 = "d\<lparr>inFlight := remove1 r (inFlight d),
                   completedCount := Suc (completedCount d),
                   emitted := emitted d @
                     [(Suc (completedCount d), totalCount d, outcome_of r reply)]\<rparr>"
  have nc: "\<not> cancelled d"
    using assms(1) by (simp add: admitted_ok_def)
  have eq: "on_settled r reply d = pump ?d1"
    using assms(2) nc by (simp add: on_settled_def)
  have nc1: "\<not> cancelled ?d1"
    using nc by simp
  show "admitted_ok (on_settled r reply d)"
    unfolding eq using assms(1) pump_full [OF nc1]
    by (simp add: admitted_ok_def)
  have m: "mset (queue (pump ?d1)) + mset (inFlight (pump ?d1))
      = mset (queue d) + mset (remove1 r (inFlight d))"
    using pump_mset [of ?d1] by simp
  have "length (queue (pump ?d1)) + length (inFlight (pump ?d1))
      = length (queue d) + length (remove1 r (inFlight d))"
    using pump_length [of ?d1] by simp
  moreover have "0 < length (inFlight d)"
    using assms(2) by (rule length_pos_if_in_set)
  ultimately show "length (queue (on_settled r reply d))
      + length (inFlight (on_settled r reply d))
      = length (queue d) + length (inFlight d) - 1"
    unfolding eq using assms(2) by (simp add: length_remove1)
  show "mset (outcomes_emitted (on_settled r reply d))
         = mset (outcomes_emitted d) + {#outcome_of r reply#}"
    unfolding eq by (simp add: outcomes_emitted_def)
  show "mset (queue (on_settled r reply d)) + mset (inFlight (on_settled r reply d)) + {#r#}
         = mset (queue d) + mset (inFlight d)"
    unfolding eq using m assms(2) by simp
qed

lemma settle_nth_live:
  assumes "admitted_ok d"
  shows "admitted_ok (settle_nth reply k d)"
    and "length (queue (settle_nth reply k d)) + length (inFlight (settle_nth reply k d))
         = length (queue d) + length (inFlight d) - 1"
    and "owed reply (settle_nth reply k d) = owed reply d"
proof -
  let ?r = "inFlight d ! (k mod length (inFlight d))"
  show "admitted_ok (settle_nth reply k d)"
    using assms on_settled_live(1) [OF assms, of ?r]
    by (simp add: settle_nth_def Let_def)
  have empty: "inFlight d = [] \<Longrightarrow> queue d = []"
    using assms by (auto simp: admitted_ok_def)
  show "length (queue (settle_nth reply k d)) + length (inFlight (settle_nth reply k d))
         = length (queue d) + length (inFlight d) - 1"
    using empty on_settled_live(2) [OF assms, of ?r]
    by (simp add: settle_nth_def Let_def)
  show "owed reply (settle_nth reply k d) = owed reply d"
  proof (cases "inFlight d = []")
    case True
    then show ?thesis by (simp add: settle_nth_def)
  next
    case False
    have r: "?r \<in> set (inFlight d)"
      using False by simp
    have s: "settle_nth reply k d = on_settled ?r (reply ?r) d"
      using False by (simp add: settle_nth_def Let_def)
    from on_settled_live(4) [OF assms r, of "reply ?r"]
    have "image_mset (\<lambda>r. outcome_of r (reply r))
            (mset (queue (on_settled ?r (reply ?r) d))
             + mset (inFlight (on_settled ?r (reply ?r) d)) + {#?r#})
        = image_mset (\<lambda>r. outcome_of r (reply r)) (mset (queue d) + mset (inFlight d))"
      by simp
    then show ?thesis
      unfolding s owed_def using on_settled_live(3) [OF assms r, of "reply ?r"]
      by (simp add: ac_simps)
  qed
qed

lemma run_schedule_live:
  assumes "admitted_ok d"
  shows "admitted_ok (run_schedule reply ks d)
     \<and> length (queue (run_schedule reply ks d)) + length (inFlight (run_schedule reply ks d))
         = length (queue d) + length (inFlight d) - length ks
     \<and> owed reply (run_schedule reply ks d) = owed reply d"
  using assms
proof (induction ks arbitrary: d)
  case Nil
  then show ?case by simp
next
  case (Cons k ks)
  from settle_nth_live [OF Cons.prems, of reply k] Cons.IH [of "settle_nth reply k d"]
  show ?case by simp
qed

lemma on_settled_reply_independent:
  "queue (on_settled r reply d) = queue (on_settled r reply' d)
   \<and> inFlight (on_settled r reply d) = inFlight (on_settled r reply' d)
   \<and> cancelled (on_settled r reply d) = cancelled d"
  by (simp add: on_settled_def pump_def split: prod.splits)

text \<open>
  C7. Whatever the inference service answers to each request and in whatever order the
  calls complete, a submitted batch runs to its end: nothing is left queued or in flight,
  the batch is not cancelled, and the outcomes emitted are exactly one per request, each
  made from that request's own answer. A failed call gives the outcome of its request
  with \<open>success\<close> false and the error kind; it leaves the queue, the calls in flight and
  the cancellation flag as a successful call would. In the renderer's store, \<^verbatim>\<open>addResult\<close>
  appends a result, failed or not, after the results already recorded.
\<close>

theorem item_failure_isolated:
  assumes "submit service batch limit = Inr d" and "0 < limit"
    and "length batch \<le> length ks"
  shows "mset (outcomes_emitted (run_schedule reply ks d))
         = image_mset (\<lambda>r. outcome_of r (reply r)) (mset batch)
     \<and> queue (run_schedule reply ks d) = []
     \<and> inFlight (run_schedule reply ks d) = []
     \<and> \<not> cancelled (run_schedule reply ks d)
     \<and> completedCount (run_schedule reply ks d) = length batch
     \<and> outcome_of r (Failed k)
         = \<lparr>requestId = id_request r, success_outcome = False, prediction_outcome = None,
            confidenceDistribution = None, errorKind = Some k\<rparr>
     \<and> queue (on_settled r (Failed k) d') = queue (on_settled r (Predicted p dist') d')
     \<and> inFlight (on_settled r (Failed k) d') = inFlight (on_settled r (Predicted p dist') d')
     \<and> cancelled (on_settled r (Failed k) d') = cancelled d'
     \<and> results (addResult res state) = results state @ [res]"
proof -
  let ?start = "\<lparr>queue = batch, inFlight = [], emitted = [], completedCount = 0,
      totalCount = length batch, concurrencyLimit = limit, cancelled = False\<rparr>"
  let ?out = "\<lambda>r. outcome_of r (reply r)"
  from assms(1) have d: "d = pump ?start"
    by (auto simp: submit_def split: if_splits)
  have ok: "admitted_ok d"
    unfolding d using assms(2) pump_full [of ?start] by (simp add: admitted_ok_def)
  have ms: "mset (queue d) + mset (inFlight d) = mset batch"
    unfolding d using pump_mset [of ?start] by simp
  have len: "length (queue d) + length (inFlight d) = length batch"
    unfolding d using pump_length [of ?start] by simp
  have ow: "owed reply d = image_mset ?out (mset batch)"
    using ms by (simp add: owed_def outcomes_emitted_def d)
  let ?e = "run_schedule reply ks d"
  from run_schedule_live [OF ok, of reply ks]
  have ok': "admitted_ok ?e" and z: "length (queue ?e) + length (inFlight ?e) = 0"
    and ow': "owed reply ?e = owed reply d"
    using len assms(3) by simp_all
  from z have q: "queue ?e = []" "inFlight ?e = []"
    by simp_all
  from ow' ow q have m: "mset (outcomes_emitted ?e) = image_mset ?out (mset batch)"
    by (simp add: owed_def)
  from arg_cong [OF m, of size] have "length (emitted ?e) = length batch"
    by (simp add: outcomes_emitted_def)
  with ok' have c: "\<not> cancelled ?e" "completedCount ?e = length batch"
    by (simp_all add: admitted_ok_def)
  have f: "outcome_of r (Failed k)
         = \<lparr>requestId = id_request r, success_outcome = False, prediction_outcome = None,
            confidenceDistribution = None, errorKind = Some k\<rparr>"
    by (simp add: outcome_of_def)
  have a: "results (addResult res state) = results state @ [res]"
    by (simp add: addResult_def)
  from m q c f a on_settled_reply_independent [of r "Failed k" d' "Predicted p dist'"]
  show ?thesis by simp
qed

theorem item_failure_isolated_witness:
  "submit Ready [req1, req2, req3] 2 = Inr example_dispatcher
   \<and> (0::nat) < 2 \<and> length [req1, req2, req3] \<le> length [0::nat, 0, 0]
   \<and> map success_outcome
        (outcomes_emitted (run_schedule example_reply [0, 0, 0] example_dispatcher))
       = [True, False, True]
   \<and> inFlight (run_schedule example_reply [0, 0, 0] example_dispatcher) = []
   \<and> completedCount (run_schedule example_reply [0, 0, 0] example_dispatcher) = 3"
proof -
  have e: "map success_outcome
        (outcomes_emitted (run_schedule example_reply [0, 0, 0] example_dispatcher))
       = [True, False, True]"
    by (simp add: example_defs settle_nth_def on_settled_def pump_def outcomes_emitted_def
        outcome_of_def Let_def)
  show ?thesis
    using example_submit e
      item_failure_isolated [OF example_submit, of "[0, 0, 0]" example_reply]
    by simp
qed

section \<open>Properties of the result aggregator\<close>

lemma has_success_status [simp]: "has_success (b\<lparr>status_batch := st\<rparr>) = has_success b"
  by (rule ext) (simp add: has_success_def)

lemma final_status_fields [simp]:
  "final_status u (b\<lparr>status_batch := st\<rparr>) = final_status u b"
  by (simp add: final_status_def every_success_def some_success_def
      some_failure_or_missing_def)

lemma new_batch_fields [simp]:
  "requests (new_batch bid reqs) = reqs"
  "outcomes (new_batch bid reqs) = []"
  "status_batch (new_batch bid reqs) = Running"
  by (simp_all add: new_batch_def)

lemma length_update_le: "length (AList.update k v al) \<le> Suc (length al)"
  by (induction al) auto

lemma step_tracked:
  assumes "tracked u b c" and "u \<noteq> Running"
  shows "tracked u (aggregate_step u e b)
          (c \<or> (e = CancelAcknowledged \<and> length (outcomes b) < length (requests b)))"
proof -
  have terminal: "final_status u b' \<noteq> Running" for b'
    using assms(2) by (simp add: final_status_def)
  show ?thesis
  proof (cases e)
    case CancelAcknowledged
    with assms(1) terminal [of b] show ?thesis
      by (auto simp: tracked_def on_cancel_def split: if_splits)
  next
    case (OutcomeArrived outcome)
    have "length (AList.update (requestId outcome) outcome (outcomes b))
        \<le> Suc (length (outcomes b))"
      by (rule length_update_le)
    with OutcomeArrived assms(1) terminal [of b] show ?thesis
      by (auto simp: tracked_def on_outcome_def Let_def split: if_splits)
  qed
qed

lemma step_requests [simp]: "requests (aggregate_step u e b) = requests b"
  by (cases e) (simp_all add: on_outcome_def on_cancel_def Let_def)

lemma step_keyed:
  assumes "keyed b" "for_request (requests b) e"
  shows "keyed (aggregate_step u e b)"
  using assms
  by (cases e) (auto simp: keyed_def for_request_def on_outcome_def on_cancel_def Let_def
      distinct_update dom_update)

lemma run_tracked:
  assumes "tracked u b c" "keyed b" "\<forall>e \<in> set evs. for_request (requests b) e"
    and "u \<noteq> Running"
  shows "tracked u (aggregate u evs b) (c \<or> cancelled_early u evs b)
     \<and> keyed (aggregate u evs b) \<and> requests (aggregate u evs b) = requests b"
  using assms
proof (induction evs arbitrary: b c)
  case Nil
  then show ?case by simp
next
  case (Cons e es)
  let ?b = "aggregate_step u e b"
  let ?c = "c \<or> (e = CancelAcknowledged \<and> length (outcomes b) < length (requests b))"
  have t: "tracked u ?b ?c"
    by (rule step_tracked [OF Cons.prems(1) Cons.prems(4)])
  have k: "keyed ?b"
    using Cons.prems by (simp add: step_keyed)
  have f: "\<forall>e \<in> set es. for_request (requests ?b) e"
    using Cons.prems by simp
  from Cons.IH [OF t k f Cons.prems(4)] show ?case
    by (simp add: disj_assoc)
qed

lemma missing_outcome:
  assumes "keyed b" "distinct (map id_request (requests b))"
    "length (outcomes b) < length (requests b)"
  shows "some_failure_or_missing b"
proof -
  have "card (fst ` set (outcomes b)) = length (outcomes b)"
    using assms(1) by (metis keyed_def distinct_card length_map set_map)
  moreover have "card (set (map id_request (requests b))) = length (requests b)"
    using assms(2) by (metis distinct_card length_map)
  ultimately have "fst ` set (outcomes b) \<noteq> set (map id_request (requests b))"
    using assms(3) by auto
  with assms(1) obtain r
    where r: "r \<in> set (requests b)" "id_request r \<notin> fst ` set (outcomes b)"
    by (auto simp: keyed_def)
  then have "map_of (outcomes b) (id_request r) = None"
    by (simp add: map_of_eq_None_iff)
  then have "\<not> has_success b r"
    by (simp add: has_success_def)
  with r(1) show ?thesis
    by (auto simp: some_failure_or_missing_def list_ex_iff)
qed

lemma every_or_failure: "every_success b \<longleftrightarrow> \<not> some_failure_or_missing b"
  by (auto simp: every_success_def some_failure_or_missing_def list_all_iff list_ex_iff)

text \<open>
  C6, as stated: for every terminated batch the status is completed iff every request
  succeeded, partially failed iff there is a success and a failure or missing outcome,
  and aborted iff the batch was cancelled before all outcomes arrived. A batch of one
  request whose call fails terminates, and whichever terminal status it is given, one of
  the three equivalences is false. A batch of two requests cancelled after the first
  succeeded is aborted, while it has a success and a missing outcome.
\<close>

theorem batch_status_rule_counterexample:
  "status_batch (aggregate Completed
      [OutcomeArrived (outcome_of req1 (Failed InferenceError))]
      (new_batch ''batch-1'' [req1])) \<noteq> Running
   \<and> \<not> status_rule
       (aggregate Completed [OutcomeArrived (outcome_of req1 (Failed InferenceError))]
         (new_batch ''batch-1'' [req1]))
       (cancelled_early Completed [OutcomeArrived (outcome_of req1 (Failed InferenceError))]
         (new_batch ''batch-1'' [req1]))
   \<and> status_batch (aggregate PartiallyFailed
      [OutcomeArrived (outcome_of req1 (Failed InferenceError))]
      (new_batch ''batch-1'' [req1])) \<noteq> Running
   \<and> \<not> status_rule
       (aggregate PartiallyFailed [OutcomeArrived (outcome_of req1 (Failed InferenceError))]
         (new_batch ''batch-1'' [req1]))
       (cancelled_early PartiallyFailed
         [OutcomeArrived (outcome_of req1 (Failed InferenceError))]
         (new_batch ''batch-1'' [req1]))
   \<and> status_batch (aggregate Aborted
      [OutcomeArrived (outcome_of req1 (Failed InferenceError))]
      (new_batch ''batch-1'' [req1])) \<noteq> Running
   \<and> \<not> status_rule
       (aggregate Aborted [OutcomeArrived (outcome_of req1 (Failed InferenceError))]
         (new_batch ''batch-1'' [req1]))
       (cancelled_early Aborted [OutcomeArrived (outcome_of req1 (Failed InferenceError))]
         (new_batch ''batch-1'' [req1]))
   \<and> status_batch (aggregate Aborted
      [OutcomeArrived (outcome_of req1 (Predicted ''glioma'' [])), CancelAcknowledged]
      (new_batch ''batch-2'' [req1, req2])) = Aborted
   \<and> cancelled_early Aborted
      [OutcomeArrived (outcome_of req1 (Predicted ''glioma'' [])), CancelAcknowledged]
      (new_batch ''batch-2'' [req1, req2])
   \<and> \<not> status_rule
       (aggregate Aborted
         [OutcomeArrived (outcome_of req1 (Predicted ''glioma'' [])), CancelAcknowledged]
         (new_batch ''batch-2'' [req1, req2]))
       (cancelled_early Aborted
         [OutcomeArrived (outcome_of req1 (Predicted ''glioma'' [])), CancelAcknowledged]
         (new_batch ''batch-2'' [req1, req2]))"
  by (simp add: status_rule_def new_batch_def on_outcome_def on_cancel_def outcome_of_def
      example_defs final_status_def every_success_def some_success_def
      some_failure_or_missing_def has_success_def Let_def)

text \<open>
  C6, amended: for every terminated batch (not empty, with distinct request ids and
  outcomes for its own requests only) other than one whose outcomes all arrived without
  a single success, the status is completed iff every request has a successful outcome,
  partially failed iff there is at least one success and at least one failure or missing
  outcome and the batch was not cancelled before all outcomes arrived, and aborted iff
  the batch was cancelled before all outcomes arrived. This holds whichever terminal
  status is given to the batch without a success.
\<close>

theorem batch_status_rule_amended:
  assumes "unnamed \<noteq> Running"
    and "reqs \<noteq> []" and "distinct (map id_request reqs)"
    and "\<forall>e \<in> set evs. for_request reqs e"
    and "status_batch (aggregate unnamed evs (new_batch bid reqs)) \<noteq> Running"
    and "some_success (aggregate unnamed evs (new_batch bid reqs))
         \<or> cancelled_early unnamed evs (new_batch bid reqs)"
  shows "status_rule_amended (aggregate unnamed evs (new_batch bid reqs))
           (cancelled_early unnamed evs (new_batch bid reqs))"
proof -
  let ?start = "new_batch bid reqs"
  let ?b = "aggregate unnamed evs ?start"
  let ?c = "cancelled_early unnamed evs ?start"
  have t0: "tracked unnamed ?start False"
    using assms(2) by (simp add: tracked_def)
  have k0: "keyed ?start"
    by (simp add: keyed_def)
  have f0: "\<forall>e \<in> set evs. for_request (requests ?start) e"
    using assms(4) by simp
  from run_tracked [OF t0 k0 f0 assms(1)]
  have t: "tracked unnamed ?b ?c" and k: "keyed ?b" and r: "requests ?b = reqs"
    by simp_all
  show ?thesis
  proof (cases ?c)
    case True
    with t have a: "status_batch ?b = Aborted"
      and l: "length (outcomes ?b) < length (requests ?b)"
      by (simp_all add: tracked_def)
    have "some_failure_or_missing ?b"
      using missing_outcome [OF k _ l] assms(3) r by simp
    with a True show ?thesis
      by (simp add: status_rule_amended_def every_or_failure)
  next
    case False
    with t assms(5) have s: "status_batch ?b = final_status unnamed ?b"
      by (auto simp: tracked_def)
    from False assms(6) have "some_success ?b"
      by simp
    with s False show ?thesis
      by (auto simp: status_rule_amended_def final_status_def every_or_failure)
  qed
qed

theorem batch_status_rule_amended_witness:
  "Aborted \<noteq> Running \<and> [req1, req2] \<noteq> [] \<and> distinct (map id_request [req1, req2])
   \<and> for_request [req1, req2] (OutcomeArrived (outcome_of req1 (example_reply req1)))
   \<and> for_request [req1, req2] (OutcomeArrived (outcome_of req2 (example_reply req2)))
   \<and> status_batch (aggregate Aborted
        [OutcomeArrived (outcome_of req1 (example_reply req1)),
         OutcomeArrived (outcome_of req2 (example_reply req2))]
        (new_batch ''batch-1'' [req1, req2])) = PartiallyFailed
   \<and> status_rule_amended
       (aggregate Aborted
         [OutcomeArrived (outcome_of req1 (example_reply req1)),
          OutcomeArrived (outcome_of req2 (example_reply req2))]
         (new_batch ''batch-1'' [req1, req2]))
       (cancelled_early Aborted
         [OutcomeArrived (outcome_of req1 (example_reply req1)),
          OutcomeArrived (outcome_of req2 (example_reply req2))]
         (new_batch ''batch-1'' [req1, req2]))"
proof -
  let ?evs = "[OutcomeArrived (outcome_of req1 (example_reply req1)),
               OutcomeArrived (outcome_of req2 (example_reply req2))]"
  let ?b = "aggregate Aborted ?evs (new_batch ''batch-1'' [req1, req2])"
  have h1: "Aborted \<noteq> Running" and h2: "[req1, req2] \<noteq> []"
    by simp_all
  have h3: "distinct (map id_request [req1, req2])"
    by (simp add: example_defs)
  have h4: "\<forall>e \<in> set ?evs. for_request [req1, req2] e"
    by (simp add: for_request_def outcome_of_def example_defs)
  have b: "?b = \<lparr>batchId = ''batch-1'', requests = [req1, req2],
      outcomes = [(''req-1'', outcome_of req1 (example_reply req1)),
                  (''req-2'', outcome_of req2 (example_reply req2))],
      status_batch = PartiallyFailed\<rparr>"
    by (simp add: new_batch_def on_outcome_def final_status_def every_success_def
        some_success_def some_failure_or_missing_def has_success_def outcome_of_def
        example_defs Let_def)
  have h5: "status_batch ?b \<noteq> Running"
    unfolding b by simp
  have h6: "some_success ?b
      \<or> cancelled_early Aborted ?evs (new_batch ''batch-1'' [req1, req2])"
    unfolding b by (simp add: some_success_def has_success_def outcome_of_def example_defs)
  show ?thesis
    using h1 h2 h3 h4 b batch_status_rule_amended [OF h1 h2 h3 h4 h5 h6]
    by simp
qed

end
